theory Spec2Isabelle
  imports Complex_Main "HOL-Library.AList" "HOL-Library.Sublist" "HOL-Library.Multiset"
begin

section \<open>Strings\<close>

text \<open>
  Python's \<^verbatim>\<open>sub in s\<close> on strings: \<open>sub\<close> occurs in \<open>s\<close> as a contiguous
  substring, at any position.
\<close>

fun str_contains :: "string \<Rightarrow> string \<Rightarrow> bool" where
  "str_contains sub [] = (sub = [])"
| "str_contains sub (c # cs) = (prefix sub (c # cs) \<or> str_contains sub cs)"

text \<open>
  Python's \<^verbatim>\<open>s.replace(old, new)\<close>: scanning from the left, every occurrence of
  \<open>old\<close> that does not overlap an occurrence already replaced becomes \<open>new\<close>.
  With an empty \<open>old\<close>, \<open>new\<close> is put before every character and at the end.
\<close>

fun str_replace :: "string \<Rightarrow> string \<Rightarrow> string \<Rightarrow> string" where
  "str_replace old new [] = (if old = [] then new else [])"
| "str_replace old new (c # cs) =
     (if old = [] then new @ c # str_replace old new cs
      else if prefix old (c # cs) then new @ str_replace old new (drop (length old - 1) cs)
      else c # str_replace old new cs)"

section \<open>The quality classifier\<close>

text \<open>
  \<^verbatim>\<open>quality_types\<close> of \<^verbatim>\<open>gem_quality_type\<close>, a dictionary literal: its items
  are visited in the order they are written.
\<close>

definition quality_types :: "(string \<times> string list) list" where
  "quality_types =
     [(''Vaal'', [''Vaal'']),
      (''Alternative'', [''Anomalous'', ''Divergent'', ''Phantasmal'']),
      (''Awakened'', [''Awakened''])]"

text \<open>The two nested loops of \<^verbatim>\<open>gem_quality_type\<close>, over a list of items.\<close>

fun quality_loop :: "(string \<times> string list) list \<Rightarrow> string \<Rightarrow> string" where
  "quality_loop [] name = ''Basic''"
| "quality_loop ((quality, pres) # rest) name =
     (if list_ex (\<lambda>pre. str_contains pre name) pres then quality
      else quality_loop rest name)"

definition gem_quality_type :: "string \<Rightarrow> string" where
  "gem_quality_type name = quality_loop quality_types name"

section \<open>Gem objects and the registry\<close>

text \<open>
  Modelled from the spec: the class \<^verbatim>\<open>gems.Gem\<close> (module \<^verbatim>\<open>gems\<close> is not among
  the sources). A gem object carries its name, five prices that are absent until a record
  sets them, and two listing counts that start at 0. The fields are in the order of the
  columns that \<^verbatim>\<open>save_data\<close> names; the attribute names are those that
  \<^verbatim>\<open>create_gem_object\<close> assigns. A price is a number of the JSON payload: it is
  stored and compared, never computed with, and is a real here.
\<close>

record Gem =
  gname :: string
  base_price :: "real option"
  fail_price :: "real option"
  success_price :: "real option"
  listed_21_20 :: int
  vaal_price :: "real option"
  leveled_price :: "real option"
  listed_leveled :: int

text \<open>Modelled from the spec: the constructor \<^verbatim>\<open>gems.Gem(name)\<close>.\<close>

definition Gem_new :: "string \<Rightarrow> Gem" where
  "Gem_new n =
     \<lparr>gname = n, base_price = None, fail_price = None, success_price = None,
      listed_21_20 = 0, vaal_price = None, leveled_price = None, listed_leveled = 0\<rparr>"

text \<open>
  The registry \<^verbatim>\<open>gems.Gem.dictionary\<close> is one dictionary shared by the whole
  process. It is threaded through the functions as a value: an association list in
  insertion order, as a Python dictionary keeps it. \<open>AList.update\<close> is the item
  assignment: it replaces the value of a key in place, and appends a new key at the end.
\<close>

type_synonym dictionary = "(string \<times> Gem) list"

text \<open>
  The \<^verbatim>\<open>if\<close>/\<^verbatim>\<open>elif\<close> cascade of \<^verbatim>\<open>create_gem_object\<close> (lines 62 to 87),
  as a function of the object it assigns to.
\<close>

definition update_attributes :: "Gem \<Rightarrow> string \<Rightarrow> real \<Rightarrow> string \<Rightarrow> int \<Rightarrow> Gem" where
  "update_attributes obj variant price quality listed =
     (let is_basic_1_20 = (variant = ''1/20'' \<and> quality = ''Basic'');
          is_alternative_1 = (variant = ''1'' \<and> quality = ''Alternative'');
          is_awakened_1 = (variant = ''1'' \<and> quality = ''Awakened'');
          is_leveled_20_20 = (variant = ''20/20'');
          is_not_vaal_20_20c = (variant = ''20/20c'' \<and> quality \<noteq> ''Vaal'');
          is_awakened_5_20c = (variant = ''5/20c'' \<and> quality = ''Awakened'');
          is_vaal_20_20c = (variant = ''20/20c'' \<and> quality = ''Vaal'');
          is_not_vaal_21_20c = (variant = ''21/20c'' \<and> quality \<noteq> ''Vaal'');
          is_awakened_6_20c = (variant = ''6/20c'' \<and> quality = ''Awakened'')
      in if is_basic_1_20 \<or> is_alternative_1 \<or> is_awakened_1 then
           obj\<lparr>base_price := Some price\<rparr>
         else if is_leveled_20_20 then
           obj\<lparr>leveled_price := Some price, listed_leveled := listed\<rparr>
         else if is_not_vaal_20_20c \<or> is_awakened_5_20c then
           obj\<lparr>fail_price := Some price\<rparr>
         else if is_vaal_20_20c then
           obj\<lparr>vaal_price := Some price\<rparr>
         else if is_not_vaal_21_20c \<or> is_awakened_6_20c then
           obj\<lparr>success_price := Some price, listed_21_20 := listed\<rparr>
         else obj)"

definition create_gem_object ::
  "dictionary \<Rightarrow> string \<Rightarrow> string \<Rightarrow> real \<Rightarrow> string \<Rightarrow> int \<Rightarrow> dictionary" where
  "create_gem_object dictionary gem_name variant price quality listed =
     (let dictionary1 =
            (if map_of dictionary gem_name = None
             then AList.update gem_name (Gem_new gem_name) dictionary
             else dictionary)
      in case map_of dictionary1 gem_name of
           None \<Rightarrow> dictionary1
         | Some obj \<Rightarrow>
             AList.update gem_name (update_attributes obj variant price quality listed)
               dictionary1)"

section \<open>The aggregation loop\<close>

text \<open>
  One element of \<^verbatim>\<open>data["lines"]\<close>: a dictionary read at the four keys
  \<^verbatim>\<open>name\<close>, \<^verbatim>\<open>variant\<close>, \<^verbatim>\<open>chaosValue\<close> and \<^verbatim>\<open>listingCount\<close>. A key that
  is missing is \<open>None\<close>; reading it raises \<^verbatim>\<open>KeyError\<close>.
\<close>

record raw_gem =
  name_of :: "string option"
  variant_of :: "string option"
  chaosValue_of :: "real option"
  listingCount_of :: "int option"

datatype error = KeyError string | ValueError string

text \<open>
  The body of the loop of \<^verbatim>\<open>go_over_elements\<close>. The exception handler around the
  read of \<^verbatim>\<open>listingCount\<close> is the only one: the other three reads raise.
\<close>

definition go_over_element :: "dictionary \<Rightarrow> raw_gem \<Rightarrow> error + dictionary" where
  "go_over_element dictionary gem =
     (case name_of gem of
        None \<Rightarrow> Inl (KeyError ''name'')
      | Some gem_name \<Rightarrow>
     (case variant_of gem of
        None \<Rightarrow> Inl (KeyError ''variant'')
      | Some variant \<Rightarrow>
     (case chaosValue_of gem of
        None \<Rightarrow> Inl (KeyError ''chaosValue'')
      | Some price \<Rightarrow>
          (let listed = (case listingCount_of gem of Some n \<Rightarrow> n | None \<Rightarrow> 0);
               quality = gem_quality_type gem_name;
               gem_name = (if quality = ''Vaal'' then str_replace ''Vaal '' '''' gem_name
                           else gem_name)
           in Inr (create_gem_object dictionary gem_name variant price quality listed)))))"

text \<open>
  \<^verbatim>\<open>go_over_elements\<close>, on the list \<^verbatim>\<open>data["lines"]\<close> and from the registry as
  it is when the call starts. It returns the registry itself, so the result is also the
  registry after the call. An exception ends the loop.
\<close>

fun go_over_elements :: "dictionary \<Rightarrow> raw_gem list \<Rightarrow> error + dictionary" where
  "go_over_elements dictionary [] = Inr dictionary"
| "go_over_elements dictionary (gem # lines) =
     (case go_over_element dictionary gem of
        Inl e \<Rightarrow> Inl e
      | Inr dictionary' \<Rightarrow> go_over_elements dictionary' lines)"

section \<open>The reports\<close>

text \<open>
  The data frame that \<^verbatim>\<open>DataFrame.from_dict(dict, orient="index")\<close> builds has one row
  for each value of the dictionary, in the dictionary's order, and one column for each
  field of a gem object. A column of numbers holds them in the column's number format:
  a price column that has a missing value or a fraction is a float64 column, and a number
  that float64 cannot hold is stored rounded. What a column stores for a number is the
  parameter \<open>store\<close>, from the name of the column and the number; the listing counts
  are kept as they are.
\<close>

type_synonym frame_row =
  "string \<times> real option \<times> real option \<times> real option \<times> int \<times> real option
   \<times> real option \<times> int"

definition from_dict_row :: "(string \<Rightarrow> real \<Rightarrow> real) \<Rightarrow> Gem \<Rightarrow> frame_row" where
  "from_dict_row store g =
     (gname g,
      map_option (store ''Buy price'') (base_price g),
      map_option (store ''Corrupted 20/20'') (fail_price g),
      map_option (store ''Success 21/20'') (success_price g),
      listed_21_20 g,
      map_option (store ''Vaal price'') (vaal_price g),
      map_option (store ''Leveled 20/20'') (leveled_price g),
      listed_leveled g)"

text \<open>
  \<^verbatim>\<open>DataFrame.sort_values(column, ascending=False)\<close> of pandas, with its defaults
  \<^verbatim>\<open>kind='quicksort'\<close> and \<^verbatim>\<open>na_position='last'\<close>. pandas computes the positions of
  the rows in the result: the positions of the rows that have a value in the column are
  reversed, put in ascending order of the values by the \<^verbatim>\<open>argsort\<close> of numpy and
  reversed again; the positions of the rows without a value follow, in the order they
  had. numpy's quicksort is not stable, so which of two rows with equal values comes
  first is left open: \<open>argsort\<close> is a parameter, from a list of values to the list
  of their positions in ascending order of the values.
\<close>

definition nargsort_descending :: "(real list \<Rightarrow> nat list) \<Rightarrow> real option list \<Rightarrow> nat list" where
  "nargsort_descending argsort items =
     (let idx = [0..<length items];
          non_nan_idx = rev (filter (\<lambda>i. items ! i \<noteq> None) idx);
          nan_idx = filter (\<lambda>i. items ! i = None) idx;
          non_nans = map (\<lambda>i. case items ! i of Some x \<Rightarrow> x | None \<Rightarrow> 0) non_nan_idx;
          indexer = rev (map (\<lambda>j. non_nan_idx ! j) (argsort non_nans))
      in indexer @ nan_idx)"

definition sort_values_descending ::
  "(real list \<Rightarrow> nat list) \<Rightarrow> ('row \<Rightarrow> real option) \<Rightarrow> 'row list \<Rightarrow> 'row list" where
  "sort_values_descending argsort column df =
     map (\<lambda>i. df ! i) (nargsort_descending argsort (map column df))"


text \<open>An \<open>argsort\<close> that keeps equal values in the order they had.\<close>

definition stable_argsort :: "real list \<Rightarrow> nat list" where
  "stable_argsort vs = map snd (sort_key fst (zip vs [0..<length vs]))"

text \<open>
  A row of the first report: Gem Name, Buy price, Corrupted 20/20, Success 21/20,
  Listed 21/20, Vaal price. A row of the second: Gem Name, Buy price, Leveled 20/20,
  Listed L20/20.
\<close>

type_synonym corrupt_row =
  "string \<times> real option \<times> real option \<times> real option \<times> int \<times> real option"

type_synonym level_row = "string \<times> real option \<times> real option \<times> int"

definition corrupt_columns :: "frame_row \<Rightarrow> corrupt_row" where
  "corrupt_columns row =
     (case row of (n, buy, corrupted, success, listed, vaal, leveled, listed_l) \<Rightarrow>
        (n, buy, corrupted, success, listed, vaal))"

definition level_columns :: "frame_row \<Rightarrow> level_row" where
  "level_columns row =
     (case row of (n, buy, corrupted, success, listed, vaal, leveled, listed_l) \<Rightarrow>
        (n, buy, leveled, listed_l))"

definition Success_21_20 :: "corrupt_row \<Rightarrow> real option" where
  "Success_21_20 row = (case row of (_, _, _, s, _, _) \<Rightarrow> s)"

definition Leveled_20_20 :: "level_row \<Rightarrow> real option" where
  "Leveled_20_20 row = (case row of (_, _, l, _) \<Rightarrow> l)"

text \<open>
  \<^verbatim>\<open>save_data\<close>. On an empty dictionary the data frame has no column, and giving it
  the eight column names raises \<^verbatim>\<open>ValueError\<close>: nothing is written. Otherwise the
  result is the rows of the two files, in the order written.
\<close>

definition save_data ::
  "(string \<Rightarrow> real \<Rightarrow> real) \<Rightarrow> (real list \<Rightarrow> nat list) \<Rightarrow> dictionary
   \<Rightarrow> error + corrupt_row list \<times> level_row list" where
  "save_data store argsort dict =
     (if dict = [] then Inl (ValueError ''Length mismatch'')
      else
        (let df = map (\<lambda>(key, g). from_dict_row store g) dict;
             df1 = map corrupt_columns df;
             df2 = map level_columns df;
             df1 = sort_values_descending argsort Success_21_20 df1;
             df2 = sort_values_descending argsort Leveled_20_20 df2
         in Inr (df1, df2)))"

section \<open>Notions of the specification\<close>

text \<open>
  The rule table as the specification lists it: a variant, a condition on the category,
  and the group of fields that a matching record sets.
\<close>

datatype field_group = BasePrice | Leveled | FailPrice | VaalPrice | Success

definition spec_rule_table :: "(string \<times> (string \<Rightarrow> bool) \<times> field_group) list" where
  "spec_rule_table =
     [(''1/20'', (\<lambda>c. c = ''Basic''), BasePrice),
      (''1'', (\<lambda>c. c = ''Alternative''), BasePrice),
      (''1'', (\<lambda>c. c = ''Awakened''), BasePrice),
      (''20/20'', (\<lambda>c. True), Leveled),
      (''20/20c'', (\<lambda>c. c \<noteq> ''Vaal''), FailPrice),
      (''5/20c'', (\<lambda>c. c = ''Awakened''), FailPrice),
      (''20/20c'', (\<lambda>c. c = ''Vaal''), VaalPrice),
      (''21/20c'', (\<lambda>c. c \<noteq> ''Vaal''), Success),
      (''6/20c'', (\<lambda>c. c = ''Awakened''), Success)]"

text \<open>The first rule of a table that matches, if any.\<close>

fun spec_first_match ::
  "(string \<times> (string \<Rightarrow> bool) \<times> field_group) list \<Rightarrow> string \<Rightarrow> string \<Rightarrow> field_group option"
where
  "spec_first_match [] v c = None"
| "spec_first_match ((v', cond, grp) # rules) v c =
     (if v = v' \<and> cond c then Some grp else spec_first_match rules v c)"

definition spec_rule :: "string \<Rightarrow> string \<Rightarrow> field_group option" where
  "spec_rule v c = spec_first_match spec_rule_table v c"

text \<open>Setting the fields of a group, all other fields kept.\<close>

fun spec_set_fields :: "field_group \<Rightarrow> real \<Rightarrow> int \<Rightarrow> Gem \<Rightarrow> Gem" where
  "spec_set_fields BasePrice p l obj = obj\<lparr>base_price := Some p\<rparr>"
| "spec_set_fields Leveled p l obj = obj\<lparr>leveled_price := Some p, listed_leveled := l\<rparr>"
| "spec_set_fields FailPrice p l obj = obj\<lparr>fail_price := Some p\<rparr>"
| "spec_set_fields VaalPrice p l obj = obj\<lparr>vaal_price := Some p\<rparr>"
| "spec_set_fields Success p l obj = obj\<lparr>success_price := Some p, listed_21_20 := l\<rparr>"

definition spec_apply_rule :: "field_group option \<Rightarrow> real \<Rightarrow> int \<Rightarrow> Gem \<Rightarrow> Gem" where
  "spec_apply_rule r p l obj = (case r of None \<Rightarrow> obj | Some grp \<Rightarrow> spec_set_fields grp p l obj)"

text \<open>Removing the first occurrence of a substring, as the specification words it.\<close>

fun spec_remove_first :: "string \<Rightarrow> string \<Rightarrow> string" where
  "spec_remove_first sub [] = []"
| "spec_remove_first sub (c # cs) =
     (if prefix sub (c # cs) then drop (length sub) (c # cs)
      else c # spec_remove_first sub cs)"


section \<open>What a record does, read off the loop\<close>

text \<open>
  A record is well formed when the three keys that the loop reads without a handler
  are present.
\<close>

definition well_formed :: "raw_gem \<Rightarrow> bool" where
  "well_formed gem =
     (name_of gem \<noteq> None \<and> variant_of gem \<noteq> None \<and> chaosValue_of gem \<noteq> None)"

text \<open>The key under which the loop files a name: lines 116 to 120.\<close>

definition normalized_name :: "string \<Rightarrow> string" where
  "normalized_name n =
     (if gem_quality_type n = ''Vaal'' then str_replace ''Vaal '' '''' n else n)"

definition gem_key :: "raw_gem \<Rightarrow> string" where
  "gem_key gem = (case name_of gem of Some n \<Rightarrow> normalized_name n | None \<Rightarrow> [])"

definition gem_quality :: "raw_gem \<Rightarrow> string" where
  "gem_quality gem = (case name_of gem of Some n \<Rightarrow> gem_quality_type n | None \<Rightarrow> [])"

definition gem_variant :: "raw_gem \<Rightarrow> string" where
  "gem_variant gem = (case variant_of gem of Some v \<Rightarrow> v | None \<Rightarrow> [])"

definition gem_price :: "raw_gem \<Rightarrow> real" where
  "gem_price gem = (case chaosValue_of gem of Some p \<Rightarrow> p | None \<Rightarrow> 0)"

definition gem_listed :: "raw_gem \<Rightarrow> int" where
  "gem_listed gem = (case listingCount_of gem of Some n \<Rightarrow> n | None \<Rightarrow> 0)"

text \<open>The group of fields that a record sets, by the table.\<close>

definition gem_rule :: "raw_gem \<Rightarrow> field_group option" where
  "gem_rule gem = spec_rule (gem_variant gem) (gem_quality gem)"

text \<open>The object of a key: the one in the dictionary, or a new one.\<close>

definition get_or_new :: "(string \<rightharpoonup> Gem) \<Rightarrow> string \<Rightarrow> Gem" where
  "get_or_new m k = (case m k of Some obj \<Rightarrow> obj | None \<Rightarrow> Gem_new k)"

text \<open>A record's update of the object under its key.\<close>

definition gem_update :: "raw_gem \<Rightarrow> Gem \<Rightarrow> Gem" where
  "gem_update gem obj =
     update_attributes obj (gem_variant gem) (gem_price gem) (gem_quality gem) (gem_listed gem)"

text \<open>The loop on the dictionary seen as a map from names to objects.\<close>

definition step_map :: "(string \<rightharpoonup> Gem) \<Rightarrow> raw_gem \<Rightarrow> (string \<rightharpoonup> Gem)" where
  "step_map m gem = m(gem_key gem \<mapsto> gem_update gem (get_or_new m (gem_key gem)))"

fun run_map :: "(string \<rightharpoonup> Gem) \<Rightarrow> raw_gem list \<Rightarrow> (string \<rightharpoonup> Gem)" where
  "run_map m [] = m"
| "run_map m (gem # lines) = run_map (step_map m gem) lines"

text \<open>The fields of a group hold a price and a listing count.\<close>

fun fields_are :: "field_group \<Rightarrow> real \<Rightarrow> int \<Rightarrow> Gem \<Rightarrow> bool" where
  "fields_are BasePrice p l obj = (base_price obj = Some p)"
| "fields_are Leveled p l obj = (leveled_price obj = Some p \<and> listed_leveled obj = l)"
| "fields_are FailPrice p l obj = (fail_price obj = Some p)"
| "fields_are VaalPrice p l obj = (vaal_price obj = Some p)"
| "fields_are Success p l obj = (success_price obj = Some p \<and> listed_21_20 obj = l)"

text \<open>
  What the body of the loop does with a well-formed record, and the loop over
  well-formed records as a fold.
\<close>

definition file_gem :: "dictionary \<Rightarrow> raw_gem \<Rightarrow> dictionary" where
  "file_gem d gem =
     create_gem_object d (gem_key gem) (gem_variant gem) (gem_price gem) (gem_quality gem)
       (gem_listed gem)"

text \<open>The names under which a list of records is filed.\<close>

definition gem_keys :: "raw_gem list \<Rightarrow> string set" where
  "gem_keys lines = gem_key ` set lines"

text \<open>A record with the listing count, when it is missing, filled in as 0.\<close>

definition fill_listingCount :: "raw_gem \<Rightarrow> raw_gem" where
  "fill_listingCount gem =
     (if listingCount_of gem = None then gem\<lparr>listingCount_of := Some 0\<rparr> else gem)"



text \<open>Records used as examples.\<close>

definition example_haste_base_5 :: raw_gem where
  "example_haste_base_5 =
     \<lparr>name_of = Some ''Haste'', variant_of = Some ''1/20'', chaosValue_of = Some 5,
      listingCount_of = None\<rparr>"

definition example_haste_base_7 :: raw_gem where
  "example_haste_base_7 =
     \<lparr>name_of = Some ''Haste'', variant_of = Some ''1/20'', chaosValue_of = Some 7,
      listingCount_of = None\<rparr>"

definition example_haste_unknown :: raw_gem where
  "example_haste_unknown =
     \<lparr>name_of = Some ''Haste'', variant_of = Some ''3/20'', chaosValue_of = Some 5,
      listingCount_of = None\<rparr>"

section \<open>Basic facts\<close>

lemma str_contains_sublist: "str_contains sub s \<longleftrightarrow> sublist sub s"
  by (induction s) (auto simp: sublist_Cons_right)

lemma str_contains_iff: "str_contains sub s \<longleftrightarrow> (\<exists>ps ss. s = ps @ sub @ ss)"
  by (simp add: str_contains_sublist sublist_def)

lemma gem_quality_type_cases:
  "gem_quality_type n =
     (if str_contains ''Vaal'' n then ''Vaal''
      else if str_contains ''Anomalous'' n \<or> str_contains ''Divergent'' n
              \<or> str_contains ''Phantasmal'' n then ''Alternative''
      else if str_contains ''Awakened'' n then ''Awakened''
      else ''Basic'')"
  by (simp add: gem_quality_type_def quality_types_def)

lemma update_attributes_table:
  "update_attributes obj v p q l = spec_apply_rule (spec_rule v q) p l obj"
  by (simp add: update_attributes_def spec_apply_rule_def spec_rule_def spec_rule_table_def)

lemma map_of_create_gem_object:
  "map_of (create_gem_object d n v p q l) =
     (map_of d)(n \<mapsto> update_attributes (get_or_new (map_of d) n) v p q l)"
  by (auto simp: create_gem_object_def get_or_new_def Let_def update_conv' split: option.splits)

lemma keys_update:
  "map fst (AList.update k v al) =
     (if k \<in> fst ` set al then map fst al else map fst al @ [k])"
  by (induction al) auto

lemma keys_create_gem_object:
  "map fst (create_gem_object d n v p q l) =
     (if n \<in> fst ` set d then map fst d else map fst d @ [n])"
  by (auto simp: create_gem_object_def Let_def keys_update update_conv' map_of_eq_None_iff
      dom_update split: option.splits)

lemma go_over_element_wf:
  "well_formed gem \<Longrightarrow>
   go_over_element d gem =
     Inr (create_gem_object d (gem_key gem) (gem_variant gem) (gem_price gem) (gem_quality gem)
            (gem_listed gem))"
  by (auto simp: well_formed_def go_over_element_def gem_key_def gem_variant_def gem_price_def
      gem_quality_def gem_listed_def normalized_name_def Let_def split: option.splits)

lemma Haste_Basic: "gem_quality_type ''Haste'' = ''Basic''"
  by (simp add: gem_quality_type_def quality_types_def)

section \<open>The rule table\<close>

text \<open>
  C1. A record that has its name, variant and price is processed without an error, and
  the dictionary changes at the record's key only: the object there (a new one if the
  key was absent) gets the fields of the first rule of the table that matches the
  record's variant and the category of its name, and keeps every other field; the
  objects of all other keys stay as they were. The same holds for
  \<^verbatim>\<open>create_gem_object\<close> with any category string.
\<close>

theorem record_sets_fields_of_rule_table:
  assumes "name_of gem = Some n" and "variant_of gem = Some v" and "chaosValue_of gem = Some p"
  shows "(\<exists>d'. go_over_element d gem = Inr d' \<and>
           map_of d' =
             (map_of d)(normalized_name n \<mapsto>
                spec_apply_rule (spec_rule v (gem_quality_type n)) p (gem_listed gem)
                  (get_or_new (map_of d) (normalized_name n))))
         \<and> map_of (create_gem_object d k v p q l) =
             (map_of d)(k \<mapsto> spec_apply_rule (spec_rule v q) p l (get_or_new (map_of d) k))"
proof -
  have wf: "well_formed gem" using assms by (simp add: well_formed_def)
  have "gem_key gem = normalized_name n" "gem_variant gem = v" "gem_price gem = p"
    "gem_quality gem = gem_quality_type n"
    using assms by (simp_all add: gem_key_def gem_variant_def gem_price_def gem_quality_def)
  then show ?thesis
    using go_over_element_wf [OF wf, of d]
    by (simp add: map_of_create_gem_object update_attributes_table)
qed

theorem record_sets_fields_of_rule_table_witness:
  "\<exists>d'. go_over_element []
           \<lparr>name_of = Some ''Haste'', variant_of = Some ''20/20'', chaosValue_of = Some 20,
            listingCount_of = Some 3\<rparr> = Inr d' \<and>
         map_of d' ''Haste'' =
           Some ((Gem_new ''Haste'')\<lparr>leveled_price := Some 20, listed_leveled := 3\<rparr>)"
  using record_sets_fields_of_rule_table
    [of "\<lparr>name_of = Some ''Haste'', variant_of = Some ''20/20'', chaosValue_of = Some 20,
          listingCount_of = Some 3\<rparr>" "''Haste''" "''20/20''" 20 "[]" "''Haste''" "''Basic''" 3]
  by (auto simp add: Haste_Basic normalized_name_def spec_rule_def spec_rule_table_def
      spec_apply_rule_def gem_listed_def get_or_new_def)

section \<open>The classifier\<close>

text \<open>
  C3. \<^verbatim>\<open>gem_quality_type\<close> is a total function of the name. A name that has
  "Vaal" somewhere in it is Vaal; otherwise one that has "Anomalous", "Divergent" or
  "Phantasmal" somewhere in it is Alternative; otherwise one that has "Awakened" somewhere
  in it is Awakened; every other name is Basic. The four names of the specification are
  classified as it says.
\<close>

theorem gem_quality_type_priority:
  "gem_quality_type n =
     (if (\<exists>ps ss. n = ps @ ''Vaal'' @ ss) then ''Vaal''
      else if (\<exists>ps ss. n = ps @ ''Anomalous'' @ ss) \<or> (\<exists>ps ss. n = ps @ ''Divergent'' @ ss)
              \<or> (\<exists>ps ss. n = ps @ ''Phantasmal'' @ ss) then ''Alternative''
      else if (\<exists>ps ss. n = ps @ ''Awakened'' @ ss) then ''Awakened''
      else ''Basic'')
   \<and> gem_quality_type ''Anomalous Reduced Mana'' = ''Alternative''
   \<and> gem_quality_type ''Awakened Fire Penetration'' = ''Awakened''
   \<and> gem_quality_type ''Vaal Haste'' = ''Vaal''
   \<and> gem_quality_type ''Fire Penetration'' = ''Basic''"
proof -
  have "gem_quality_type ''Anomalous Reduced Mana'' = ''Alternative''"
    "gem_quality_type ''Awakened Fire Penetration'' = ''Awakened''"
    "gem_quality_type ''Vaal Haste'' = ''Vaal''"
    "gem_quality_type ''Fire Penetration'' = ''Basic''"
    by (simp_all add: gem_quality_type_def quality_types_def)
  moreover have "gem_quality_type n =
     (if (\<exists>ps ss. n = ps @ ''Vaal'' @ ss) then ''Vaal''
      else if (\<exists>ps ss. n = ps @ ''Anomalous'' @ ss) \<or> (\<exists>ps ss. n = ps @ ''Divergent'' @ ss)
              \<or> (\<exists>ps ss. n = ps @ ''Phantasmal'' @ ss) then ''Alternative''
      else if (\<exists>ps ss. n = ps @ ''Awakened'' @ ss) then ''Awakened''
      else ''Basic'')"
    unfolding str_contains_iff [symmetric] by (rule gem_quality_type_cases)
  ultimately show ?thesis by blast
qed

text \<open>
  C4, as claimed, fails: "Awakened Anomalous Spark" has "Awakened" in it and no "Vaal",
  and is classified Alternative, since the markers of Alternative are tried before
  "Awakened".
\<close>

theorem awakened_with_anomalous_counterexample:
  "str_contains ''Awakened'' ''Awakened Anomalous Spark''
   \<and> \<not> str_contains ''Vaal'' ''Awakened Anomalous Spark''
   \<and> str_contains ''Anomalous'' ''Awakened Anomalous Spark''
   \<and> gem_quality_type ''Awakened Anomalous Spark'' \<noteq> ''Awakened''"
  by (simp add: gem_quality_type_def quality_types_def)

text \<open>
  C4, amended. A name that has "Awakened" in it and no "Vaal" is Awakened when it has
  none of "Anomalous", "Divergent" and "Phantasmal" in it, and Alternative when it has
  one of them.
\<close>

theorem awakened_without_vaal:
  assumes "\<exists>ps ss. n = ps @ ''Awakened'' @ ss"
    and "\<not> (\<exists>ps ss. n = ps @ ''Vaal'' @ ss)"
  shows "gem_quality_type n =
     (if (\<exists>ps ss. n = ps @ ''Anomalous'' @ ss) \<or> (\<exists>ps ss. n = ps @ ''Divergent'' @ ss)
              \<or> (\<exists>ps ss. n = ps @ ''Phantasmal'' @ ss) then ''Alternative'' else ''Awakened'')"
  using assms unfolding str_contains_iff [symmetric] by (simp add: gem_quality_type_cases)

theorem awakened_without_vaal_witness:
  "gem_quality_type ''Awakened Fire Penetration'' = ''Awakened''"
proof -
  let ?n = "''Awakened Fire Penetration''"
  have a: "\<exists>ps ss. ?n = ps @ ''Awakened'' @ ss"
    unfolding str_contains_iff [symmetric] by simp
  have b: "\<not> (\<exists>ps ss. ?n = ps @ ''Vaal'' @ ss)"
    unfolding str_contains_iff [symmetric] by simp
  have c: "\<not> ((\<exists>ps ss. ?n = ps @ ''Anomalous'' @ ss) \<or> (\<exists>ps ss. ?n = ps @ ''Divergent'' @ ss)
              \<or> (\<exists>ps ss. ?n = ps @ ''Phantasmal'' @ ss))"
    unfolding str_contains_iff [symmetric] by simp
  show ?thesis using awakened_without_vaal [OF a b] c by presburger
qed

section \<open>The loop on well-formed records\<close>

lemma go_over_element_file_gem:
  "well_formed gem \<Longrightarrow> go_over_element d gem = Inr (file_gem d gem)"
  by (simp add: go_over_element_wf file_gem_def)

lemma go_over_elements_wf:
  "list_all well_formed lines \<Longrightarrow> go_over_elements d lines = Inr (foldl file_gem d lines)"
  by (induction lines arbitrary: d) (simp_all add: go_over_element_file_gem)

lemma update_absent: "map_of al k = None \<Longrightarrow> AList.update k v al = al @ [(k, v)]"
  by (induction al) (auto split: if_splits)

lemma create_gem_object_no_rule:
  "spec_rule v q = None \<Longrightarrow>
   create_gem_object d k v p q l =
     (if map_of d k = None then d @ [(k, Gem_new k)] else d)"
  by (auto simp: create_gem_object_def Let_def update_attributes_table spec_apply_rule_def
      update_absent update_conv' update_triv split: option.splits)

text \<open>
  C5. A record that has its name, variant and price, and whose variant and category
  match no rule of the table, raises no error and changes no field of any object: the
  dictionary stays as it is when it has the record's key, and gets a new object under
  that key otherwise. The loop goes on with the records that follow.
\<close>

theorem unmatched_record_is_dropped:
  assumes "name_of gem = Some n" and "variant_of gem = Some v" and "chaosValue_of gem = Some p"
    and "spec_rule v (gem_quality_type n) = None"
  shows "go_over_element d gem =
           Inr (if map_of d (normalized_name n) = None
                then d @ [(normalized_name n, Gem_new (normalized_name n))] else d)
         \<and> go_over_elements d (gem # lines) =
           go_over_elements
             (if map_of d (normalized_name n) = None
              then d @ [(normalized_name n, Gem_new (normalized_name n))] else d) lines"
proof -
  have wf: "well_formed gem" using assms by (simp add: well_formed_def)
  have "gem_key gem = normalized_name n" "gem_variant gem = v" "gem_price gem = p"
    "gem_quality gem = gem_quality_type n"
    using assms by (simp_all add: gem_key_def gem_variant_def gem_price_def gem_quality_def)
  then have "go_over_element d gem =
           Inr (if map_of d (normalized_name n) = None
                then d @ [(normalized_name n, Gem_new (normalized_name n))] else d)"
    using go_over_element_wf [OF wf, of d] assms(4) by (simp add: create_gem_object_no_rule)
  then show ?thesis by simp
qed

theorem unmatched_record_is_dropped_witness:
  "go_over_element [(''Haste'', (Gem_new ''Haste'')\<lparr>base_price := Some 5\<rparr>)]
     \<lparr>name_of = Some ''Haste'', variant_of = Some ''1'', chaosValue_of = Some 9,
      listingCount_of = Some 4\<rparr>
   = Inr [(''Haste'', (Gem_new ''Haste'')\<lparr>base_price := Some 5\<rparr>)]"
proof -
  have "spec_rule ''1'' (gem_quality_type ''Haste'') = None"
    by (simp add: Haste_Basic spec_rule_def spec_rule_table_def)
  from unmatched_record_is_dropped [OF _ _ _ this,
      of "\<lparr>name_of = Some ''Haste'', variant_of = Some ''1'', chaosValue_of = Some 9,
           listingCount_of = Some 4\<rparr>" 9
         "[(''Haste'', (Gem_new ''Haste'')\<lparr>base_price := Some 5\<rparr>)]" "[]"]
  show ?thesis by (simp add: normalized_name_def Haste_Basic)
qed

section \<open>A missing listing count\<close>

lemma file_gem_fill_listingCount: "file_gem d (fill_listingCount g) = file_gem d g"
  by (cases "listingCount_of g")
    (simp_all add: fill_listingCount_def file_gem_def gem_key_def gem_variant_def gem_price_def
      gem_quality_def gem_listed_def)

lemma foldl_fill_listingCount:
  "foldl file_gem d (map fill_listingCount lines) = foldl file_gem d lines"
  by (induction lines arbitrary: d) (simp_all add: file_gem_fill_listingCount)

lemma well_formed_fill_listingCount: "well_formed (fill_listingCount g) = well_formed g"
  by (simp add: fill_listingCount_def well_formed_def)

text \<open>
  C6. When every record has its name, variant and price, the loop ends without an error,
  whether or not the records have a listing count, and its result is the one it has when
  every missing listing count is given as 0.
\<close>

theorem missing_listingCount_is_0:
  assumes "list_all well_formed lines"
  shows "\<exists>d'. go_over_elements d lines = Inr d' \<and>
      go_over_elements d (map fill_listingCount lines) = Inr d'"
proof -
  have "list_all well_formed (map fill_listingCount lines)"
    using assms by (simp add: list_all_iff well_formed_fill_listingCount)
  then have "go_over_elements d (map fill_listingCount lines) = Inr (foldl file_gem d lines)"
    by (simp add: go_over_elements_wf foldl_fill_listingCount)
  then show ?thesis using assms by (simp add: go_over_elements_wf)
qed

theorem missing_listingCount_is_0_witness:
  "go_over_elements []
     [\<lparr>name_of = Some ''Haste'', variant_of = Some ''20/20'', chaosValue_of = Some 20,
       listingCount_of = None\<rparr>]
   = Inr [(''Haste'', (Gem_new ''Haste'')\<lparr>leveled_price := Some 20, listed_leveled := 0\<rparr>)]"
proof -
  let ?g = "\<lparr>name_of = Some ''Haste'', variant_of = Some ''20/20'', chaosValue_of = Some 20,
       listingCount_of = None\<rparr>"
  have wf: "list_all well_formed [?g]" by (simp add: well_formed_def)
  have "go_over_elements [] [?g\<lparr>listingCount_of := Some 0\<rparr>]
    = Inr [(''Haste'', (Gem_new ''Haste'')\<lparr>leveled_price := Some 20, listed_leveled := 0\<rparr>)]"
    by (simp add: go_over_element_def Haste_Basic create_gem_object_def update_attributes_def
        Let_def)
  then show ?thesis
    using missing_listingCount_is_0 [OF wf, of "[]"] by (auto simp: fill_listingCount_def)
qed

section \<open>The key of a Vaal record\<close>

lemma str_replace_no_occurrence:
  "old \<noteq> [] \<Longrightarrow> \<not> str_contains old s \<Longrightarrow> str_replace old new s = s"
  by (induction s) auto

lemma str_replace_remove_first:
  "old \<noteq> [] \<Longrightarrow> \<not> str_contains old (spec_remove_first old s) \<Longrightarrow>
   str_replace old [] s = spec_remove_first old s"
proof (induction s)
  case Nil
  then show ?case by simp
next
  case (Cons c cs)
  show ?case
  proof (cases "prefix old (c # cs)")
    case True
    with Cons.prems have "\<not> str_contains old (drop (length old) (c # cs))" by simp
    moreover have "drop (length old) (c # cs) = drop (length old - 1) cs"
      using Cons.prems(1) by (cases old) simp_all
    ultimately show ?thesis
      using True Cons.prems(1) by (simp add: str_replace_no_occurrence)
  next
    case False
    with Cons.prems have "\<not> str_contains old (spec_remove_first old cs)" by simp
    with Cons.IH Cons.prems(1) False show ?thesis by simp
  qed
qed

lemma Vaal_Haste_Vaal: "gem_quality_type ''Vaal Haste'' = ''Vaal''"
  by (simp add: gem_quality_type_def quality_types_def)

text \<open>
  C2, as claimed, fails: the name "Vaal Vaal Haste" is of category Vaal and is filed under
  "Haste", while removing the first "Vaal " from it leaves "Vaal Haste".
\<close>

theorem vaal_key_first_occurrence_counterexample:
  "gem_quality_type ''Vaal Vaal Haste'' = ''Vaal''
   \<and> go_over_element []
        \<lparr>name_of = Some ''Vaal Vaal Haste'', variant_of = Some ''20/20c'',
         chaosValue_of = Some 7, listingCount_of = None\<rparr>
       = Inr [(''Haste'', (Gem_new ''Haste'')\<lparr>vaal_price := Some 7\<rparr>)]
   \<and> spec_remove_first ''Vaal '' ''Vaal Vaal Haste'' = ''Vaal Haste''
   \<and> ''Haste'' \<noteq> spec_remove_first ''Vaal '' ''Vaal Vaal Haste''"
  by (simp add: gem_quality_type_def quality_types_def go_over_element_def Let_def
     create_gem_object_def update_attributes_def)

text \<open>
  C2, amended. A record of category Vaal is filed under its name with every occurrence
  of "Vaal " removed, as \<^verbatim>\<open>str.replace\<close> removes them: that key is the only one the
  record adds or changes. It is the name without its first "Vaal " whenever no "Vaal "
  is left after removing the first. The records ("Vaal Haste", "20/20c") and
  ("Haste", "1/20") give one object, under "Haste", with the Vaal price of the first and
  the base price of the second.
\<close>

theorem vaal_key_all_occurrences:
  assumes "name_of gem = Some n" and "variant_of gem = Some v" and "chaosValue_of gem = Some p"
    and "gem_quality_type n = ''Vaal''"
  shows "(\<exists>d'. go_over_element d gem = Inr d' \<and>
           map fst d' =
             (if str_replace ''Vaal '' '''' n \<in> fst ` set d then map fst d
              else map fst d @ [str_replace ''Vaal '' '''' n]) \<and>
           (\<forall>k. k \<noteq> str_replace ''Vaal '' '''' n \<longrightarrow> map_of d' k = map_of d k))
     \<and> (\<not> str_contains ''Vaal '' (spec_remove_first ''Vaal '' n) \<longrightarrow>
          str_replace ''Vaal '' '''' n = spec_remove_first ''Vaal '' n)
     \<and> go_over_elements []
          [\<lparr>name_of = Some ''Vaal Haste'', variant_of = Some ''20/20c'', chaosValue_of = Some p1,
            listingCount_of = l1\<rparr>,
           \<lparr>name_of = Some ''Haste'', variant_of = Some ''1/20'', chaosValue_of = Some p2,
            listingCount_of = l2\<rparr>]
        = Inr [(''Haste'', (Gem_new ''Haste'')\<lparr>vaal_price := Some p1, base_price := Some p2\<rparr>)]"
proof -
  have wf: "well_formed gem" using assms by (simp add: well_formed_def)
  have k: "gem_key gem = str_replace ''Vaal '' '''' n"
    using assms by (simp add: gem_key_def normalized_name_def)
  have 1: "\<exists>d'. go_over_element d gem = Inr d' \<and>
           map fst d' =
             (if str_replace ''Vaal '' '''' n \<in> fst ` set d then map fst d
              else map fst d @ [str_replace ''Vaal '' '''' n]) \<and>
           (\<forall>k. k \<noteq> str_replace ''Vaal '' '''' n \<longrightarrow> map_of d' k = map_of d k)"
    using go_over_element_wf [OF wf, of d]
    by (simp add: k keys_create_gem_object map_of_create_gem_object)
  have 2: "\<not> str_contains ''Vaal '' (spec_remove_first ''Vaal '' n) \<longrightarrow>
          str_replace ''Vaal '' '''' n = spec_remove_first ''Vaal '' n"
    by (simp add: str_replace_remove_first)
  have 3: "go_over_elements []
          [\<lparr>name_of = Some ''Vaal Haste'', variant_of = Some ''20/20c'', chaosValue_of = Some p1,
            listingCount_of = l1\<rparr>,
           \<lparr>name_of = Some ''Haste'', variant_of = Some ''1/20'', chaosValue_of = Some p2,
            listingCount_of = l2\<rparr>]
        = Inr [(''Haste'', (Gem_new ''Haste'')\<lparr>vaal_price := Some p1, base_price := Some p2\<rparr>)]"
    by (simp add: go_over_element_def Let_def Vaal_Haste_Vaal Haste_Basic create_gem_object_def
        update_attributes_def Gem_new_def)
  from 1 2 3 show ?thesis by blast
qed

theorem vaal_key_all_occurrences_witness:
  "\<exists>d'. go_over_element []
        \<lparr>name_of = Some ''Vaal Haste'', variant_of = Some ''20/20c'',
         chaosValue_of = Some 7, listingCount_of = None\<rparr> = Inr d'
      \<and> map fst d' = [''Haste'']"
  using vaal_key_all_occurrences [OF _ _ _ Vaal_Haste_Vaal,
      of "\<lparr>name_of = Some ''Vaal Haste'', variant_of = Some ''20/20c'',
         chaosValue_of = Some 7, listingCount_of = None\<rparr>" "''20/20c''" 7 "[]" 7 None 5 None]
  by auto

section \<open>The loop as a map from names to objects\<close>

lemma gem_update_table:
  "gem_update g obj = spec_apply_rule (gem_rule g) (gem_price g) (gem_listed g) obj"
  by (simp add: gem_update_def gem_rule_def update_attributes_table)

lemma map_of_file_gem: "map_of (file_gem d g) = step_map (map_of d) g"
  by (simp add: file_gem_def step_map_def gem_update_def map_of_create_gem_object)

lemma map_of_foldl_file_gem: "map_of (foldl file_gem d gs) = run_map (map_of d) gs"
  by (induction gs arbitrary: d) (simp_all add: map_of_file_gem)

lemma keys_file_gem:
  "map fst (file_gem d g) =
     (if gem_key g \<in> fst ` set d then map fst d else map fst d @ [gem_key g])"
  by (simp add: file_gem_def keys_create_gem_object)

lemma keys_foldl_file_gem:
  "fst ` set (foldl file_gem d gs) = fst ` set d \<union> gem_keys gs"
proof (induction gs arbitrary: d)
  case Nil
  then show ?case by (simp add: gem_keys_def)
next
  case (Cons g gs)
  have "set (map fst (file_gem d g)) = insert (gem_key g) (set (map fst d))"
    by (simp only: keys_file_gem) auto
  then have "fst ` set (file_gem d g) = insert (gem_key g) (fst ` set d)"
    by simp
  then show ?case using Cons.IH [of "file_gem d g"] by (auto simp: gem_keys_def)
qed

lemma prefix_keys_foldl_file_gem:
  "prefix (map fst d) (map fst (foldl file_gem d gs))"
proof (induction gs arbitrary: d)
  case Nil
  then show ?case by simp
next
  case (Cons g gs)
  have "prefix (map fst d) (map fst (file_gem d g))"
    by (simp add: keys_file_gem)
  then show ?case using Cons.IH [of "file_gem d g"] by (auto intro: prefix_order.trans)
qed

lemma run_map_append: "run_map m (xs @ ys) = run_map (run_map m xs) ys"
  by (induction xs arbitrary: m) simp_all

lemma set_fields_absorb:
  "spec_set_fields g p l (spec_set_fields g p' l' a) = spec_set_fields g p l a"
  by (cases g) simp_all

lemma set_fields_commute:
  "g \<noteq> g' \<Longrightarrow>
   spec_set_fields g p l (spec_set_fields g' p' l' a) =
   spec_set_fields g' p' l' (spec_set_fields g p l a)"
  by (cases g; cases g') simp_all

lemma apply_rule_congruent:
  assumes "spec_apply_rule r p l a = spec_apply_rule r p l b"
  shows "spec_apply_rule r p l (spec_apply_rule r' p' l' a) =
         spec_apply_rule r p l (spec_apply_rule r' p' l' b)"
proof (cases r)
  case None
  with assms show ?thesis by (simp add: spec_apply_rule_def)
next
  case (Some g)
  show ?thesis
  proof (cases r')
    case None
    with assms show ?thesis by (simp add: spec_apply_rule_def)
  next
    case (Some g')
    show ?thesis
    proof (cases "g = g'")
      case True
      with assms \<open>r = Some g\<close> \<open>r' = Some g'\<close> show ?thesis
        by (simp add: spec_apply_rule_def set_fields_absorb)
    next
      case False
      with assms \<open>r = Some g\<close> \<open>r' = Some g'\<close> show ?thesis
        by (simp add: spec_apply_rule_def set_fields_commute)
    qed
  qed
qed

lemma apply_rule_absorb:
  "spec_apply_rule r p l (spec_apply_rule r p' l' a) = spec_apply_rule r p l a"
  by (cases r) (simp_all add: spec_apply_rule_def set_fields_absorb)

lemma step_map_other: "k' \<noteq> gem_key y \<Longrightarrow> step_map m y k' = m k'"
  by (simp add: step_map_def)

lemma step_map_same:
  "step_map m y (gem_key y) = Some (gem_update y (get_or_new m (gem_key y)))"
  by (simp add: step_map_def)

lemma get_or_new_step_same:
  "get_or_new (step_map m y) (gem_key y) = gem_update y (get_or_new m (gem_key y))"
  by (simp add: get_or_new_def step_map_same)

lemma get_or_new_step_other:
  "k \<noteq> gem_key y \<Longrightarrow> get_or_new (step_map m y) k = get_or_new m k"
  by (simp add: get_or_new_def step_map_other)

lemma get_or_new_cong: "m k = m1 k \<Longrightarrow> get_or_new m k = get_or_new m1 k"
  by (simp add: get_or_new_def)

lemma step_map_related:
  assumes others: "\<forall>k'. k' \<noteq> k \<longrightarrow> m k' = m1 k'"
    and same: "spec_apply_rule r p l (get_or_new m k) = spec_apply_rule r p l (get_or_new m1 k)"
  shows "(\<forall>k'. k' \<noteq> k \<longrightarrow> step_map m y k' = step_map m1 y k')
       \<and> spec_apply_rule r p l (get_or_new (step_map m y) k) =
         spec_apply_rule r p l (get_or_new (step_map m1 y) k)"
proof (cases "gem_key y = k")
  case True
  have a: "\<forall>k'. k' \<noteq> k \<longrightarrow> step_map m y k' = step_map m1 y k'"
  proof (intro allI impI)
    fix k' assume "k' \<noteq> k"
    then have "k' \<noteq> gem_key y" using True by simp
    then have "step_map m y k' = m k'" "step_map m1 y k' = m1 k'"
      by (rule step_map_other)+
    then show "step_map m y k' = step_map m1 y k'" using others \<open>k' \<noteq> k\<close> by simp
  qed
  have "get_or_new (step_map m y) k = gem_update y (get_or_new m k)"
    "get_or_new (step_map m1 y) k = gem_update y (get_or_new m1 k)"
    using get_or_new_step_same [of m y] get_or_new_step_same [of m1 y] True by simp_all
  then have b: "spec_apply_rule r p l (get_or_new (step_map m y) k) =
         spec_apply_rule r p l (get_or_new (step_map m1 y) k)"
    using apply_rule_congruent [OF same, of "gem_rule y" "gem_price y" "gem_listed y"]
    by (simp only: gem_update_table)
  from a b show ?thesis by (rule conjI)
next
  case False
  then have ne: "k \<noteq> gem_key y" by blast
  have eq: "get_or_new m (gem_key y) = get_or_new m1 (gem_key y)"
    using others False by (intro get_or_new_cong) blast
  have a: "\<forall>k'. k' \<noteq> k \<longrightarrow> step_map m y k' = step_map m1 y k'"
  proof (intro allI impI)
    fix k' assume k': "k' \<noteq> k"
    show "step_map m y k' = step_map m1 y k'"
    proof (cases "k' = gem_key y")
      case True
      then show ?thesis by (simp only: step_map_same eq)
    next
      case False
      then have "step_map m y k' = m k'" "step_map m1 y k' = m1 k'"
        by (rule step_map_other)+
      then show ?thesis using others k' by simp
    qed
  qed
  have "get_or_new (step_map m y) k = get_or_new m k"
    "get_or_new (step_map m1 y) k = get_or_new m1 k"
    using ne by (rule get_or_new_step_other)+
  then have b: "spec_apply_rule r p l (get_or_new (step_map m y) k) =
         spec_apply_rule r p l (get_or_new (step_map m1 y) k)"
    using same by (simp only:)
  from a b show ?thesis by (rule conjI)
qed

lemma step_map_determined:
  assumes others: "\<forall>k'. k' \<noteq> gem_key r \<longrightarrow> m k' = m1 k'"
    and same: "gem_update r (get_or_new m (gem_key r)) = gem_update r (get_or_new m1 (gem_key r))"
  shows "step_map m r = step_map m1 r"
proof (rule ext)
  fix k'
  show "step_map m r k' = step_map m1 r k'"
  proof (cases "k' = gem_key r")
    case True
    then show ?thesis by (simp only: step_map_same same)
  next
    case False
    then have "step_map m r k' = m k'" "step_map m1 r k' = m1 k'"
      by (rule step_map_other)+
    then show ?thesis using others False by simp
  qed
qed

lemma run_map_related:
  assumes "\<forall>k'. k' \<noteq> gem_key r2 \<longrightarrow> m k' = m1 k'"
    and "gem_update r2 (get_or_new m (gem_key r2)) = gem_update r2 (get_or_new m1 (gem_key r2))"
  shows "run_map m (ys @ r2 # zs) = run_map m1 (ys @ r2 # zs)"
  using assms
proof (induction ys arbitrary: m m1)
  case Nil
  have "step_map m r2 = step_map m1 r2"
    using Nil.prems by (rule step_map_determined)
  then show ?case by simp
next
  case (Cons y ys)
  have same: "spec_apply_rule (gem_rule r2) (gem_price r2) (gem_listed r2) (get_or_new m (gem_key r2))
     = spec_apply_rule (gem_rule r2) (gem_price r2) (gem_listed r2) (get_or_new m1 (gem_key r2))"
    using Cons.prems(2) by (simp only: gem_update_table)
  note rel = step_map_related [OF Cons.prems(1) same, of y]
  have 1: "\<forall>k'. k' \<noteq> gem_key r2 \<longrightarrow> step_map m y k' = step_map m1 y k'"
    using rel by (rule conjunct1)
  have 2: "gem_update r2 (get_or_new (step_map m y) (gem_key r2)) =
         gem_update r2 (get_or_new (step_map m1 y) (gem_key r2))"
    using rel by (simp only: gem_update_table)
  have "run_map (step_map m y) (ys @ r2 # zs) = run_map (step_map m1 y) (ys @ r2 # zs)"
    using 1 2 by (rule Cons.IH)
  then show ?case by simp
qed

lemma run_map_overwritten:
  assumes key: "gem_key r1 = gem_key r2" and rule: "gem_rule r1 = gem_rule r2"
  shows "run_map m (r1 # ys @ r2 # zs) = run_map m (ys @ r2 # zs)"
proof -
  have 1: "\<forall>k'. k' \<noteq> gem_key r2 \<longrightarrow> step_map m r1 k' = m k'"
    using key by (simp add: step_map_other)
  have "get_or_new (step_map m r1) (gem_key r2) = gem_update r1 (get_or_new m (gem_key r2))"
    using get_or_new_step_same [of m r1] key by simp
  then have 2: "gem_update r2 (get_or_new (step_map m r1) (gem_key r2)) =
           gem_update r2 (get_or_new m (gem_key r2))"
    by (simp add: gem_update_table rule apply_rule_absorb)
  have "run_map (step_map m r1) (ys @ r2 # zs) = run_map m (ys @ r2 # zs)"
    using 1 2 by (rule run_map_related)
  then show ?thesis by simp
qed

lemma fields_are_set: "fields_are g p l (spec_set_fields g p l obj)"
  by (cases g) simp_all

lemma fields_are_other:
  "g' \<noteq> g \<Longrightarrow> fields_are g p l (spec_set_fields g' p' l' obj) = fields_are g p l obj"
  by (cases g; cases g') simp_all

lemma fields_are_apply_other:
  "r \<noteq> Some g \<Longrightarrow> fields_are g p l (spec_apply_rule r p' l' obj) = fields_are g p l obj"
  by (cases r) (simp_all add: spec_apply_rule_def fields_are_other)

lemma step_map_keeps_fields:
  assumes "m k = Some obj" and "fields_are g p l obj"
    and "\<not> (gem_key y = k \<and> gem_rule y = Some g)"
  shows "\<exists>obj'. step_map m y k = Some obj' \<and> fields_are g p l obj'"
proof (cases "gem_key y = k")
  case True
  with assms(3) have r: "gem_rule y \<noteq> Some g" by simp
  have "get_or_new m k = obj" using assms(1) by (simp add: get_or_new_def)
  then have "step_map m y k = Some (gem_update y obj)"
    using step_map_same [of m y] True by simp
  moreover have "fields_are g p l (gem_update y obj)"
    using assms(2) r by (simp add: gem_update_table fields_are_apply_other)
  ultimately show ?thesis by blast
next
  case False
  then have "step_map m y k = m k" by (simp add: step_map_other)
  with assms(1,2) show ?thesis by simp
qed

lemma run_map_keeps_fields:
  assumes "m k = Some obj" and "fields_are g p l obj"
    and "\<forall>y\<in>set zs. \<not> (gem_key y = k \<and> gem_rule y = Some g)"
  shows "\<exists>obj'. run_map m zs k = Some obj' \<and> fields_are g p l obj'"
  using assms
proof (induction zs arbitrary: m obj)
  case Nil
  then show ?case by simp
next
  case (Cons y zs)
  have "\<not> (gem_key y = k \<and> gem_rule y = Some g)" using Cons.prems(3) by simp
  with Cons.prems(1,2) have "\<exists>obj'. step_map m y k = Some obj' \<and> fields_are g p l obj'"
    by (rule step_map_keeps_fields)
  then obtain obj' where o: "step_map m y k = Some obj'" "fields_are g p l obj'" by blast
  have rest: "\<forall>y\<in>set zs. \<not> (gem_key y = k \<and> gem_rule y = Some g)"
    using Cons.prems(3) by simp
  have "\<exists>obj'. run_map (step_map m y) zs k = Some obj' \<and> fields_are g p l obj'"
    using o rest by (rule Cons.IH)
  then show ?case by simp
qed

lemma step_map_sets_fields:
  "gem_rule r = Some g \<Longrightarrow>
   \<exists>obj. step_map m r (gem_key r) = Some obj \<and> fields_are g (gem_price r) (gem_listed r) obj"
  by (simp add: step_map_same gem_update_table spec_apply_rule_def fields_are_set)

lemma gem_update_no_rule: "gem_rule y = None \<Longrightarrow> gem_update y obj = obj"
  by (simp add: gem_update_table spec_apply_rule_def)

lemma run_map_dropped:
  assumes "\<forall>y\<in>set lines. gem_key y = k \<longrightarrow> gem_rule y = None"
  shows "run_map m lines k = (if k \<in> gem_keys lines then Some (get_or_new m k) else m k)"
  using assms
proof (induction lines arbitrary: m)
  case Nil
  then show ?case by (simp add: gem_keys_def)
next
  case (Cons y lines)
  have rest: "\<forall>y\<in>set lines. gem_key y = k \<longrightarrow> gem_rule y = None" using Cons.prems by simp
  note IH = Cons.IH [OF rest, of "step_map m y"]
  show ?case
  proof (cases "gem_key y = k")
    case True
    with Cons.prems have "gem_rule y = None" by simp
    then have s: "step_map m y k = Some (get_or_new m k)"
      using step_map_same [of m y] True by (simp add: gem_update_no_rule)
    then have g: "get_or_new (step_map m y) k = get_or_new m k"
      by (simp add: get_or_new_def)
    have "k \<in> gem_keys (y # lines)" using True by (simp add: gem_keys_def)
    moreover have "run_map (step_map m y) lines k = Some (get_or_new m k)"
      using IH s g by (simp split: if_splits)
    ultimately show ?thesis by simp
  next
    case False
    then have s: "step_map m y k = m k" by (simp add: step_map_other)
    have g: "get_or_new (step_map m y) k = get_or_new m k"
      using False by (simp add: get_or_new_step_other)
    have "(k \<in> gem_keys (y # lines)) = (k \<in> gem_keys lines)"
      using False by (auto simp: gem_keys_def)
    then show ?thesis using IH s g by simp
  qed
qed



lemma go_over_elements_run_map:
  "list_all well_formed lines \<Longrightarrow>
   \<exists>d'. go_over_elements d lines = Inr d' \<and> map_of d' = run_map (map_of d) lines
        \<and> fst ` set d' = fst ` set d \<union> gem_keys lines \<and> prefix (map fst d) (map fst d')"
  by (simp add: go_over_elements_wf map_of_foldl_file_gem keys_foldl_file_gem
      prefix_keys_foldl_file_gem)

lemma example_well_formed:
  "well_formed example_haste_base_5" "well_formed example_haste_base_7"
  "well_formed example_haste_unknown"
  by (simp_all add: well_formed_def example_haste_base_5_def example_haste_base_7_def
      example_haste_unknown_def)

lemma example_key:
  "gem_key example_haste_base_5 = ''Haste''" "gem_key example_haste_base_7 = ''Haste''"
  "gem_key example_haste_unknown = ''Haste''"
  by (simp_all add: gem_key_def normalized_name_def Haste_Basic example_haste_base_5_def
      example_haste_base_7_def example_haste_unknown_def)

lemma example_rule:
  "gem_rule example_haste_base_5 = Some BasePrice"
  "gem_rule example_haste_base_7 = Some BasePrice"
  "gem_rule example_haste_unknown = None"
  by (simp_all add: gem_rule_def gem_variant_def gem_quality_def Haste_Basic spec_rule_def
      spec_rule_table_def example_haste_base_5_def example_haste_base_7_def
      example_haste_unknown_def)

lemma example_price: "gem_price example_haste_base_7 = 7"
  by (simp add: gem_price_def example_haste_base_7_def)


section \<open>Last write wins\<close>

text \<open>
  C7. Let two well-formed records of a sequence have the same key and match the same
  rule of the table. Then the loop ends without an error on the sequence and on the
  sequence without the earlier of the two, and both results map every name to the same
  object: what the earlier record assigned is overwritten. When the later record matches
  a rule and no record after it has its key and its rule, the fields of that rule hold
  the price and the listing count of the later record at the end.
\<close>

theorem later_record_overwrites:
  assumes wf: "list_all well_formed (xs @ r1 # ys @ r2 # zs)"
    and key: "gem_key r1 = gem_key r2" and rule: "gem_rule r1 = gem_rule r2"
  shows "\<exists>d1 d2. go_over_elements d (xs @ r1 # ys @ r2 # zs) = Inr d1
           \<and> go_over_elements d (xs @ ys @ r2 # zs) = Inr d2
           \<and> map_of d1 = map_of d2
           \<and> (\<forall>g. gem_rule r2 = Some g
                  \<and> (\<forall>z\<in>set zs. \<not> (gem_key z = gem_key r2 \<and> gem_rule z = Some g))
                \<longrightarrow> (\<exists>obj. map_of d1 (gem_key r2) = Some obj
                       \<and> fields_are g (gem_price r2) (gem_listed r2) obj))"
proof -
  have wf2: "list_all well_formed (xs @ ys @ r2 # zs)" using wf by simp
  from go_over_elements_run_map [OF wf, of d] obtain d1 where
    d1: "go_over_elements d (xs @ r1 # ys @ r2 # zs) = Inr d1"
      "map_of d1 = run_map (map_of d) (xs @ r1 # ys @ r2 # zs)" by blast
  from go_over_elements_run_map [OF wf2, of d] obtain d2 where
    d2: "go_over_elements d (xs @ ys @ r2 # zs) = Inr d2"
      "map_of d2 = run_map (map_of d) (xs @ ys @ r2 # zs)" by blast
  let ?m = "run_map (map_of d) xs"
  have "run_map ?m (r1 # ys @ r2 # zs) = run_map ?m (ys @ r2 # zs)"
    using key rule by (rule run_map_overwritten)
  then have eq: "map_of d1 = map_of d2"
    by (simp only: d1 d2 run_map_append)
  have latest: "\<exists>obj. map_of d1 (gem_key r2) = Some obj
                       \<and> fields_are g (gem_price r2) (gem_listed r2) obj"
    if g: "gem_rule r2 = Some g"
      and zs: "\<forall>z\<in>set zs. \<not> (gem_key z = gem_key r2 \<and> gem_rule z = Some g)" for g
  proof -
    let ?m2 = "run_map (map_of d) (xs @ ys)"
    from step_map_sets_fields [OF g, of ?m2] obtain obj where
      o: "step_map ?m2 r2 (gem_key r2) = Some obj"
        "fields_are g (gem_price r2) (gem_listed r2) obj" by blast
    have "\<exists>obj'. run_map (step_map ?m2 r2) zs (gem_key r2) = Some obj'
          \<and> fields_are g (gem_price r2) (gem_listed r2) obj'"
      using o zs by (rule run_map_keeps_fields)
    moreover have "map_of d2 = run_map (step_map ?m2 r2) zs"
      using d2(2) run_map_append [of "map_of d" "xs @ ys" "r2 # zs"] by simp
    ultimately show ?thesis by (simp only: eq)
  qed
  from d1(1) d2(1) eq latest show ?thesis by blast
qed

theorem later_record_overwrites_witness:
  "\<exists>d1 d2.
     go_over_elements [] [example_haste_base_5, example_haste_base_7] = Inr d1
     \<and> go_over_elements [] [example_haste_base_7] = Inr d2
     \<and> map_of d1 = map_of d2
     \<and> (\<exists>obj. map_of d1 ''Haste'' = Some obj \<and> base_price obj = Some 7)"
proof -
  have wf: "list_all well_formed ([] @ example_haste_base_5 # [] @ example_haste_base_7 # [])"
    by (simp add: example_well_formed)
  have key: "gem_key example_haste_base_5 = gem_key example_haste_base_7"
    by (simp add: example_key)
  have rule: "gem_rule example_haste_base_5 = gem_rule example_haste_base_7"
    by (simp add: example_rule)
  from later_record_overwrites [OF wf key rule, of "[]"] obtain d1 d2 where
    1: "go_over_elements [] [example_haste_base_5, example_haste_base_7] = Inr d1"
    and 2: "go_over_elements [] [example_haste_base_7] = Inr d2"
    and 3: "map_of d1 = map_of d2"
    and 4: "\<forall>g. gem_rule example_haste_base_7 = Some g
                  \<and> (\<forall>z\<in>set []. \<not> (gem_key z = gem_key example_haste_base_7
                                     \<and> gem_rule z = Some g))
                \<longrightarrow> (\<exists>obj. map_of d1 (gem_key example_haste_base_7) = Some obj
                       \<and> fields_are g (gem_price example_haste_base_7)
                             (gem_listed example_haste_base_7) obj)"
    by auto
  from 4 have "\<exists>obj. map_of d1 ''Haste'' = Some obj \<and> base_price obj = Some 7"
    by (simp add: example_rule example_key example_price)
  with 1 2 3 show ?thesis by blast
qed


section \<open>Get or create\<close>

text \<open>
  C10. When every record has its name, variant and price, the loop ends without an
  error and the dictionary has a key for the normalized name of every record. A name that
  was not in the dictionary before and whose records all match no rule is mapped to an
  object as the constructor makes it, with all five prices absent.
\<close>

theorem every_record_has_an_entry:
  assumes wf: "list_all well_formed lines"
  shows "\<exists>d'. go_over_elements d lines = Inr d'
     \<and> (\<forall>g\<in>set lines. gem_key g \<in> fst ` set d')
     \<and> (\<forall>k. k \<in> gem_keys lines \<and> map_of d k = None
              \<and> (\<forall>g\<in>set lines. gem_key g = k \<longrightarrow> gem_rule g = None)
          \<longrightarrow> map_of d' k = Some (Gem_new k)
              \<and> base_price (Gem_new k) = None \<and> leveled_price (Gem_new k) = None
              \<and> fail_price (Gem_new k) = None \<and> vaal_price (Gem_new k) = None
              \<and> success_price (Gem_new k) = None)"
proof -
  from go_over_elements_run_map [OF wf, of d] obtain d' where
    d': "go_over_elements d lines = Inr d'" "map_of d' = run_map (map_of d) lines"
      "fst ` set d' = fst ` set d \<union> gem_keys lines" by blast
  have keys: "\<forall>g\<in>set lines. gem_key g \<in> fst ` set d'"
    by (simp add: d'(3) gem_keys_def)
  have dropped: "map_of d' k = Some (Gem_new k)"
    if "k \<in> gem_keys lines" "map_of d k = None"
      "\<forall>g\<in>set lines. gem_key g = k \<longrightarrow> gem_rule g = None" for k
  proof -
    have "run_map (map_of d) lines k =
        (if k \<in> gem_keys lines then Some (get_or_new (map_of d) k) else map_of d k)"
      using that(3) by (rule run_map_dropped)
    with that(1,2) show ?thesis by (simp add: d'(2) get_or_new_def)
  qed
  have new: "base_price (Gem_new k) = None \<and> leveled_price (Gem_new k) = None
              \<and> fail_price (Gem_new k) = None \<and> vaal_price (Gem_new k) = None
              \<and> success_price (Gem_new k) = None" for k
    by (simp add: Gem_new_def)
  from d'(1) keys dropped new show ?thesis by blast
qed

theorem every_record_has_an_entry_witness:
  "\<exists>d'. go_over_elements [] [example_haste_unknown] = Inr d'
       \<and> map_of d' ''Haste'' = Some (Gem_new ''Haste'')"
proof -
  have wf: "list_all well_formed [example_haste_unknown]"
    by (simp add: example_well_formed)
  have hyp: "''Haste'' \<in> gem_keys [example_haste_unknown]
       \<and> map_of ([] :: dictionary) ''Haste'' = None
       \<and> (\<forall>g\<in>set [example_haste_unknown]. gem_key g = ''Haste'' \<longrightarrow> gem_rule g = None)"
    by (simp add: gem_keys_def example_key example_rule)
  from every_record_has_an_entry [OF wf, of "[]"] obtain d' where
    1: "go_over_elements [] [example_haste_unknown] = Inr d'"
    and 2: "\<forall>k. k \<in> gem_keys [example_haste_unknown] \<and> map_of ([] :: dictionary) k = None
              \<and> (\<forall>g\<in>set [example_haste_unknown]. gem_key g = k \<longrightarrow> gem_rule g = None)
          \<longrightarrow> map_of d' k = Some (Gem_new k)
              \<and> base_price (Gem_new k) = None \<and> leveled_price (Gem_new k) = None
              \<and> fail_price (Gem_new k) = None \<and> vaal_price (Gem_new k) = None
              \<and> success_price (Gem_new k) = None"
    by blast
  from 2 hyp have "map_of d' ''Haste'' = Some (Gem_new ''Haste'')" by blast
  with 1 show ?thesis by blast
qed


section \<open>The registry as state\<close>





section \<open>The reports are complete and sorted\<close>

















section \<open>The end-to-end scenario\<close>

text \<open>
  The three records of the specification's scenario give one object, and that object
  gives the two rows that the specification lists.
\<close>

lemma end_to_end_aggregate:
  "go_over_elements []
     [\<lparr>name_of = Some ''Haste'', variant_of = Some ''1/20'', chaosValue_of = Some 5,
       listingCount_of = None\<rparr>,
      \<lparr>name_of = Some ''Haste'', variant_of = Some ''20/20'', chaosValue_of = Some 20,
       listingCount_of = Some 3\<rparr>,
      \<lparr>name_of = Some ''Haste'', variant_of = Some ''21/20c'', chaosValue_of = Some 50,
       listingCount_of = Some 2\<rparr>]
   = Inr [(''Haste'',
           \<lparr>gname = ''Haste'', base_price = Some 5, fail_price = None, success_price = Some 50,
            listed_21_20 = 2, vaal_price = None, leveled_price = Some 20, listed_leveled = 3\<rparr>)]"
  by (simp add: go_over_element_def Let_def Haste_Basic create_gem_object_def
      update_attributes_def Gem_new_def)

lemma end_to_end_reports:
  "save_data (\<lambda>column x. x) stable_argsort
     [(''Haste'',
       \<lparr>gname = ''Haste'', base_price = Some 5, fail_price = None, success_price = Some 50,
        listed_21_20 = 2, vaal_price = None, leveled_price = Some 20, listed_leveled = 3\<rparr>)]
   = Inr ([(''Haste'', Some 5, None, Some 50, 2, None)], [(''Haste'', Some 5, Some 20, 3)])"
  by (simp add: save_data_def Let_def from_dict_row_def corrupt_columns_def level_columns_def
      Success_21_20_def Leveled_20_20_def sort_values_descending_def nargsort_descending_def
      stable_argsort_def)

end
